theory Spec2Isabelle
  imports Main "HOL-Library.Signed_Division"
begin

section \<open>The JavaScript \<open>Date\<close> object\<close>

text \<open>
  \<open>DatepickerContext.ts\<close> computes with the built-in \<open>Date\<close>. A \<open>Date\<close> holds a
  time value, a number of milliseconds, or is invalid (its time value is NaN); its
  getters and setters work on the local time of that value. In the model local time
  is UTC (no offset, no daylight saving) and the numbers handed to the constructor
  and the setters are integers. A \<open>jsdate\<close> is the time value of a valid date; the
  result of the constructor or of a setter is a \<open>jsdate option\<close>, \<open>None\<close> for an
  invalid date. The definitions follow the abstract operations of ECMA-262 (Day,
  TimeWithinDay, DaysInYear, DayFromYear, YearFromTime, InLeapYear, MonthFromTime,
  DateFromTime, MakeDay, MakeDate, TimeClip) and keep their names.
\<close>

type_synonym jsdate = int

definition msPerDay :: int where
  "msPerDay = 86400000"

definition Day :: "jsdate \<Rightarrow> int" where
  "Day t = t div msPerDay"

definition TimeWithinDay :: "jsdate \<Rightarrow> int" where
  "TimeWithinDay t = t mod msPerDay"

definition DaysInYear :: "int \<Rightarrow> int" where
  "DaysInYear y =
     (if y mod 4 \<noteq> 0 then 365
      else if y mod 100 \<noteq> 0 then 366
      else if y mod 400 \<noteq> 0 then 365
      else 366)"

definition DayFromYear :: "int \<Rightarrow> int" where
  "DayFromYear y =
     365 * (y - 1970) + (y - 1969) div 4 - (y - 1901) div 100 + (y - 1601) div 400"

text \<open>One year later the first day of the year lies \<open>DaysInYear\<close> days further.\<close>

lemma div_step:
  fixes a n :: int
  assumes "0 < n"
  shows "(a + 1) div n = a div n + (if (a + 1) mod n = 0 then 1 else 0)"
proof -
  define q r where "q = a div n" and "r = a mod n"
  have a: "a = q * n + r" by (simp add: q_def r_def)
  have r: "0 \<le> r" "r < n" using assms by (simp_all add: r_def)
  show ?thesis
  proof (cases "r + 1 = n")
    case True
    then have e: "a + 1 = (q + 1) * n" using a by (simp add: algebra_simps)
    have "(a + 1) div n = q + 1" "(a + 1) mod n = 0"
      unfolding e using assms by simp_all
    then show ?thesis by (simp add: q_def)
  next
    case False
    then have b: "0 \<le> r + 1" "r + 1 < n" using r by simp_all
    have e: "a + 1 = (r + 1) + q * n" using a by simp
    have "(a + 1) div n = q" "(a + 1) mod n = r + 1"
      unfolding e using b by simp_all
    then show ?thesis using b r by (simp add: q_def)
  qed
qed

lemma div_pred:
  fixes y c n :: int
  assumes "0 < n" and "n dvd c"
  shows "(y - c) div n = (y - c - 1) div n + (if y mod n = 0 then 1 else 0)"
proof -
  have "(y - c - 1 + 1) div n
      = (y - c - 1) div n + (if (y - c - 1 + 1) mod n = 0 then 1 else 0)"
    using assms(1) by (rule div_step)
  moreover have "y - c - 1 + 1 = y - c" by simp
  moreover have "(y - c) mod n = y mod n"
    using assms(2) by (simp add: mod_diff_right_eq [symmetric, of y c n])
  ultimately show ?thesis by (simp only:)
qed

lemma div4_1968: "((y::int) - 1968) div 4 = (y - 1969) div 4 + (if y mod 4 = 0 then 1 else 0)"
  using div_pred [of 4 1968 y] by simp

lemma div100_1900:
  "((y::int) - 1900) div 100 = (y - 1901) div 100 + (if y mod 100 = 0 then 1 else 0)"
  using div_pred [of 100 1900 y] by simp

lemma div400_1600:
  "((y::int) - 1600) div 400 = (y - 1601) div 400 + (if y mod 400 = 0 then 1 else 0)"
  using div_pred [of 400 1600 y] by simp

lemma mod_400_100: "(y::int) mod 400 = 0 \<Longrightarrow> y mod 100 = 0"
proof -
  assume "y mod 400 = 0"
  then have "400 dvd y" by (simp add: dvd_eq_mod_eq_0)
  moreover have "(100::int) dvd 400" by simp
  ultimately have "100 dvd y" by (rule dvd_trans [rotated])
  then show ?thesis by (simp add: dvd_eq_mod_eq_0)
qed

lemma mod_100_4: "(y::int) mod 100 = 0 \<Longrightarrow> y mod 4 = 0"
proof -
  assume "y mod 100 = 0"
  then have "100 dvd y" by (simp add: dvd_eq_mod_eq_0)
  moreover have "(4::int) dvd 100" by simp
  ultimately have "4 dvd y" by (rule dvd_trans [rotated])
  then show ?thesis by (simp add: dvd_eq_mod_eq_0)
qed

lemma DayFromYear_Suc: "DayFromYear (y + 1) = DayFromYear y + DaysInYear y"
proof -
  have e: "y + 1 - 1969 = y - 1968" "y + 1 - 1901 = y - 1900" "y + 1 - 1601 = y - 1600"
    by simp_all
  show ?thesis
    unfolding DayFromYear_def DaysInYear_def e div4_1968 div100_1900 div400_1600
    using mod_400_100 [of y] mod_100_4 [of y] by (simp split: if_splits)
qed

lemma DaysInYear_ge: "365 \<le> DaysInYear y"
  by (simp add: DaysInYear_def)

lemma DayFromYear_less: "DayFromYear (y - 1) < DayFromYear y"
  using DayFromYear_Suc [of "y - 1"] DaysInYear_ge [of "y - 1"] by simp

text \<open>
  YearFromTime is the largest year whose first day is not after the day of \<open>t\<close>.
  It is found by a search from an estimate: down while the year starts too late,
  then up while the next year has started.
\<close>

function yearDown :: "int \<Rightarrow> int \<Rightarrow> int" where
  "yearDown dy y = (if dy < DayFromYear y then yearDown dy (y - 1) else y)"
  by pat_completeness auto
termination
proof (relation "measure (\<lambda>(dy, y). nat (DayFromYear y - dy))")
  show "wf (measure (\<lambda>(dy, y). nat (DayFromYear y - dy)))" by simp
next
  fix dy y :: int
  assume "dy < DayFromYear y"
  then show "((dy, y - 1), (dy, y)) \<in> measure (\<lambda>(dy, y). nat (DayFromYear y - dy))"
    using DayFromYear_less [of y] by simp
qed

function yearUp :: "int \<Rightarrow> int \<Rightarrow> int" where
  "yearUp dy y = (if DayFromYear (y + 1) \<le> dy then yearUp dy (y + 1) else y)"
  by pat_completeness auto
termination
proof (relation "measure (\<lambda>(dy, y). nat (dy - DayFromYear y))")
  show "wf (measure (\<lambda>(dy, y). nat (dy - DayFromYear y)))" by simp
next
  fix dy y :: int
  assume "DayFromYear (y + 1) \<le> dy"
  then show "((dy, y + 1), (dy, y)) \<in> measure (\<lambda>(dy, y). nat (dy - DayFromYear y))"
    using DayFromYear_less [of "y + 1"] by simp
qed

declare yearDown.simps [simp del] yearUp.simps [simp del]

definition YearFromDay :: "int \<Rightarrow> int" where
  "YearFromDay dy = yearUp dy (yearDown dy (1970 + dy div 365))"

definition YearFromTime :: "jsdate \<Rightarrow> int" where
  "YearFromTime t = YearFromDay (Day t)"

definition InLeapYear :: "jsdate \<Rightarrow> int" where
  "InLeapYear t = (if DaysInYear (YearFromTime t) = 366 then 1 else 0)"

definition DayWithinYear :: "jsdate \<Rightarrow> int" where
  "DayWithinYear t = Day t - DayFromYear (YearFromTime t)"

definition MonthFromTime :: "jsdate \<Rightarrow> int" where
  "MonthFromTime t =
     (let d = DayWithinYear t; l = InLeapYear t in
      if d < 31 then 0
      else if d < 59 + l then 1
      else if d < 90 + l then 2
      else if d < 120 + l then 3
      else if d < 151 + l then 4
      else if d < 181 + l then 5
      else if d < 212 + l then 6
      else if d < 243 + l then 7
      else if d < 273 + l then 8
      else if d < 304 + l then 9
      else if d < 334 + l then 10
      else 11)"

text \<open>The day of the year on which month \<open>m\<close> (0 to 11) starts; \<open>l\<close> is 1 in a leap year.\<close>

definition monthStart :: "int \<Rightarrow> int \<Rightarrow> int" where
  "monthStart m l =
     (if m = 0 then 0
      else if m = 1 then 31
      else if m = 2 then 59 + l
      else if m = 3 then 90 + l
      else if m = 4 then 120 + l
      else if m = 5 then 151 + l
      else if m = 6 then 181 + l
      else if m = 7 then 212 + l
      else if m = 8 then 243 + l
      else if m = 9 then 273 + l
      else if m = 10 then 304 + l
      else 334 + l)"

definition DateFromTime :: "jsdate \<Rightarrow> int" where
  "DateFromTime t = DayWithinYear t - monthStart (MonthFromTime t) (InLeapYear t) + 1"

text \<open>
  MakeDay carries a month outside 0 to 11 into the year and lets the day of the
  month run over the end (or before the start) of the month.
\<close>

definition MakeDay :: "int \<Rightarrow> int \<Rightarrow> int \<Rightarrow> int" where
  "MakeDay yr m dt =
     (let ym = yr + m div 12; mn = m mod 12 in
      DayFromYear ym + monthStart mn (if DaysInYear ym = 366 then 1 else 0) + dt - 1)"

definition MakeDate :: "int \<Rightarrow> int \<Rightarrow> jsdate" where
  "MakeDate dy tm = dy * msPerDay + tm"

text \<open>A time value more than 8.64e15 ms from the epoch makes the date invalid.\<close>

definition TimeClip :: "int \<Rightarrow> jsdate option" where
  "TimeClip t = (if \<bar>t\<bar> > 8640000000000000 then None else Some t)"

text \<open>\<open>new Date(year, month, day)\<close>: local midnight; a year from 0 to 99 means 1900 + year.\<close>

definition newDate :: "int \<Rightarrow> int \<Rightarrow> int \<Rightarrow> jsdate option" where
  "newDate y m d =
     (let yr = (if 0 \<le> y \<and> y \<le> 99 then 1900 + y else y)
      in TimeClip (MakeDate (MakeDay yr m d) 0))"

text \<open>The getters, on a valid date.\<close>

definition getFullYear :: "jsdate \<Rightarrow> int" where
  "getFullYear t = YearFromTime t"

definition getMonth :: "jsdate \<Rightarrow> int" where
  "getMonth t = MonthFromTime t"

definition getDate :: "jsdate \<Rightarrow> int" where
  "getDate t = DateFromTime t"

text \<open>
  The setters. \<open>setFullYear\<close> on an invalid date starts from the time value 0;
  \<open>setMonth\<close> and \<open>setDate\<close> leave an invalid date invalid.
\<close>

definition setFullYear :: "jsdate option \<Rightarrow> int \<Rightarrow> jsdate option" where
  "setFullYear dv y =
     (let t = (case dv of None \<Rightarrow> 0 | Some t \<Rightarrow> t)
      in TimeClip (MakeDate (MakeDay y (MonthFromTime t) (DateFromTime t)) (TimeWithinDay t)))"

definition setMonth :: "jsdate option \<Rightarrow> int \<Rightarrow> jsdate option" where
  "setMonth dv m =
     (case dv of
        None \<Rightarrow> None
      | Some t \<Rightarrow>
          TimeClip (MakeDate (MakeDay (YearFromTime t) m (DateFromTime t)) (TimeWithinDay t)))"

definition setDate :: "jsdate option \<Rightarrow> int \<Rightarrow> jsdate option" where
  "setDate dv dt =
     (case dv of
        None \<Rightarrow> None
      | Some t \<Rightarrow>
          TimeClip (MakeDate (MakeDay (YearFromTime t) (MonthFromTime t) dt) (TimeWithinDay t)))"


section \<open>Calendar arithmetic of \<open>DatepickerContext.ts\<close>\<close>

text \<open>
  \<open>year % 4 === 0\<close>: the remainder of JavaScript takes the sign of the dividend,
  which is \<open>smod\<close> on \<open>int\<close>.
\<close>

definition isLeapYear :: "int \<Rightarrow> bool" where
  "isLeapYear year = ((year smod 4 = 0 \<and> year smod 100 \<noteq> 0) \<or> year smod 400 = 0)"

definition daysInMonth :: "int \<Rightarrow> int \<Rightarrow> int" where
  "daysInMonth month year =
     (if month = 0 \<or> month = 2 \<or> month = 4 \<or> month = 6 \<or> month = 7 \<or> month = 9 \<or> month = 11
      then 31
      else if month = 1 then (if isLeapYear year then 29 else 28)
      else 30)"


section \<open>The validity check\<close>

datatype ViewState = DateView | MonthView | YearView

record MonthYear =
  month :: int
  year :: int

text \<open>
  \<open>DateValidator\<close>: \<open>day\<close> and \<open>month\<close> are optional (\<open>None\<close> is \<open>undefined\<close>).
  The fields are numbers in the source; the model takes the integers.
\<close>

record DateValidator =
  day :: "int option"
  month :: "int option"
  year :: int

text \<open>
  \<open>isValid\<close> reads the view and the range \<open>minDate\<close>, \<open>maxDate\<close> of the
  configuration (both optional, valid dates when present) from its closure, and the
  clock through \<open>new Date()\<close>: \<open>now\<close> is the time value of the date that call
  returns. It assigns to the fields \<open>month\<close> and \<open>day\<close> of its argument, so the
  model returns the result \<open>r\<close> together with the argument as the call leaves it.
  \<open>!d.day\<close> holds for a missing day and for 0; \<open>minDate && \<dots>\<close> is false when
  \<open>minDate\<close> is missing; \<open>_date > maxDate\<close> and \<open>_date < minDate\<close> are false when
  \<open>_date\<close> is invalid.
\<close>

definition isValid ::
  "ViewState \<Rightarrow> jsdate option \<Rightarrow> jsdate option \<Rightarrow> jsdate \<Rightarrow> DateValidator
     \<Rightarrow> bool \<times> DateValidator" where
  "isValid view minDate maxDate now d =
     (let m = (case month d of None \<Rightarrow> 12 | Some m \<Rightarrow> m);
          dy = (case day d of
                  None \<Rightarrow> daysInMonth m (year d)
                | Some x \<Rightarrow> if x = 0 then daysInMonth m (year d) else x);
          t1 = setFullYear (Some now) (year d);
          t2 = setMonth t1 m;
          t3 = setDate t2 dy;
          t4 = (if view \<noteq> DateView then setMonth t3 (m - 1) else t3);
          r = (if view = YearView then
                 (if (case minDate of None \<Rightarrow> False | Some mn \<Rightarrow> getFullYear mn > year d)
                  then False
                  else if (case maxDate of None \<Rightarrow> False | Some mx \<Rightarrow> getFullYear mx < year d)
                  then False
                  else True)
               else
                 (let t5 = setDate t4 (dy - 1) in
                  if (case maxDate of
                        None \<Rightarrow> False
                      | Some mx \<Rightarrow> (case t5 of None \<Rightarrow> False | Some t \<Rightarrow> t > mx))
                  then False
                  else if (case minDate of
                             None \<Rightarrow> False
                           | Some mn \<Rightarrow> (case t5 of None \<Rightarrow> False | Some t \<Rightarrow> t < mn))
                  then False
                  else True))
      in (r, d\<lparr>day := Some dy, month := Some m\<rparr>))"


section \<open>The state of the picker and its operations\<close>

text \<open>
  The state of \<open>useDatepickerCtx\<close>: the three \<open>useState\<close> cells, the \<open>date\<close> of the
  configuration the host passes in (a valid date), and the dates the host's
  \<open>onChange\<close> has been called with, oldest first.
\<close>

record picker =
  date :: jsdate
  monthYear :: MonthYear
  view :: ViewState
  isVisible :: bool
  onChange :: "jsdate option list"

definition init :: "jsdate \<Rightarrow> picker" where
  "init dt =
     \<lparr>date = dt,
      monthYear = \<lparr>MonthYear.month = getMonth dt, MonthYear.year = getFullYear dt\<rparr>,
      view = DateView, isVisible = False, onChange = []\<rparr>"

text \<open>
  The operations the context hands out, the \<open>mousedown\<close> listener (\<open>MouseDown b\<close>:
  \<open>b\<close> says that the popup node exists and does not contain the target), and the host
  rendering the picker with another \<open>config.date\<close>.
\<close>

datatype event =
    NextMonth | PrevMonth | NextYear | PrevYear | NextDecade | PrevDecade
  | SelectMonth int | SelectYear int | SelectDate int
  | ViewMonths | ViewYears
  | ShowCalendar | ToggleCalendar
  | MouseDown bool
  | ConfigDate jsdate

definition nextMonth :: "MonthYear \<Rightarrow> MonthYear" where
  "nextMonth state =
     (if MonthYear.month state \<ge> 11
      then \<lparr>MonthYear.month = 0, MonthYear.year = MonthYear.year state + 1\<rparr>
      else \<lparr>MonthYear.month = MonthYear.month state + 1, MonthYear.year = MonthYear.year state\<rparr>)"

definition prevMonth :: "MonthYear \<Rightarrow> MonthYear" where
  "prevMonth state =
     (if MonthYear.month state \<le> 0
      then \<lparr>MonthYear.month = 11, MonthYear.year = MonthYear.year state - 1\<rparr>
      else \<lparr>MonthYear.month = MonthYear.month state - 1, MonthYear.year = MonthYear.year state\<rparr>)"

text \<open>
  What a handler does to the state. The listener is on the document only while the
  popup is visible (the effect adds it, its cleanup removes it).
\<close>

fun handler :: "picker \<Rightarrow> event \<Rightarrow> picker" where
  "handler s NextMonth = s\<lparr>monthYear := nextMonth (monthYear s)\<rparr>"
| "handler s PrevMonth = s\<lparr>monthYear := prevMonth (monthYear s)\<rparr>"
| "handler s NextYear =
     s\<lparr>monthYear := (monthYear s)\<lparr>MonthYear.year := MonthYear.year (monthYear s) + 1\<rparr>\<rparr>"
| "handler s PrevYear =
     s\<lparr>monthYear := (monthYear s)\<lparr>MonthYear.year := MonthYear.year (monthYear s) - 1\<rparr>\<rparr>"
| "handler s NextDecade =
     s\<lparr>monthYear := (monthYear s)\<lparr>MonthYear.year := MonthYear.year (monthYear s) + 12\<rparr>\<rparr>"
| "handler s PrevDecade =
     s\<lparr>monthYear := (monthYear s)\<lparr>MonthYear.year := MonthYear.year (monthYear s) - 12\<rparr>\<rparr>"
| "handler s (SelectMonth m) =
     s\<lparr>monthYear := (monthYear s)\<lparr>MonthYear.month := m\<rparr>, view := DateView\<rparr>"
| "handler s (SelectYear y) =
     s\<lparr>monthYear := (monthYear s)\<lparr>MonthYear.year := y\<rparr>, view := MonthView\<rparr>"
| "handler s (SelectDate d) =
     s\<lparr>onChange := onChange s @
          [newDate (MonthYear.year (monthYear s)) (MonthYear.month (monthYear s)) d],
        isVisible := False\<rparr>"
| "handler s ViewMonths = s\<lparr>view := MonthView\<rparr>"
| "handler s ViewYears = s\<lparr>view := YearView\<rparr>"
| "handler s ShowCalendar = s\<lparr>isVisible := True\<rparr>"
| "handler s ToggleCalendar = s\<lparr>isVisible := \<not> isVisible s\<rparr>"
| "handler s (MouseDown outside) =
     (if isVisible s \<and> outside then s\<lparr>isVisible := False, view := DateView\<rparr> else s)"
| "handler s (ConfigDate dt) = s\<lparr>date := dt\<rparr>"

text \<open>
  The effect with the dependency \<open>[isVisible]\<close> runs after a render in which
  \<open>isVisible\<close> has changed; when the popup is then visible it sets the month and
  year shown to those of \<open>date\<close>.
\<close>

definition effect :: "bool \<Rightarrow> picker \<Rightarrow> picker" where
  "effect was s =
     (if isVisible s \<noteq> was \<and> isVisible s
      then s\<lparr>monthYear :=
             \<lparr>MonthYear.month = getMonth (date s), MonthYear.year = getFullYear (date s)\<rparr>\<rparr>
      else s)"

definition step :: "picker \<Rightarrow> event \<Rightarrow> picker" where
  "step s e = effect (isVisible s) (handler s e)"

definition run :: "picker \<Rightarrow> event list \<Rightarrow> picker" where
  "run s es = foldl step s es"


section \<open>Facts about the calendar arithmetic\<close>

lemma smod_eq_0_iff: "(k::int) smod l = 0 \<longleftrightarrow> l dvd k"
  by (auto simp: smod_int_alt_def dvd_eq_mod_eq_0 [symmetric] sgn_0_0)

lemma isLeapYear_dvd: "isLeapYear y = ((4 dvd y \<and> \<not> 100 dvd y) \<or> 400 dvd y)"
  by (simp add: isLeapYear_def smod_eq_0_iff)

text \<open>
  The search of \<open>YearFromDay\<close> ends in the one year that contains the day, so the
  getters read back what \<open>MakeDay\<close> was given when the month and the day of the
  month are in range.
\<close>

lemma DayFromYear_mono: "a \<le> b \<Longrightarrow> DayFromYear a \<le> DayFromYear b"
proof (induction b rule: int_ge_induct)
  case base
  show ?case by simp
next
  case (step i)
  then show ?case using DayFromYear_Suc [of i] DaysInYear_ge [of i] by simp
qed

lemma yearDown_le: "DayFromYear (yearDown dy y) \<le> dy"
proof (induction dy y rule: yearDown.induct)
  case (1 dy y)
  then show ?case by (subst yearDown.simps) simp
qed

lemma yearUp_bounds:
  "DayFromYear y \<le> dy \<Longrightarrow>
   DayFromYear (yearUp dy y) \<le> dy \<and> dy < DayFromYear (yearUp dy y + 1)"
proof (induction dy y rule: yearUp.induct)
  case (1 dy y)
  then show ?case by (subst (1 2) yearUp.simps) simp
qed

lemma YearFromDay_bounds:
  "DayFromYear (YearFromDay dy) \<le> dy \<and> dy < DayFromYear (YearFromDay dy + 1)"
  unfolding YearFromDay_def by (rule yearUp_bounds) (rule yearDown_le)

lemma YearFromDay_unique:
  assumes "DayFromYear y \<le> dy" and "dy < DayFromYear (y + 1)"
  shows "YearFromDay dy = y"
proof (rule ccontr)
  assume ne: "YearFromDay dy \<noteq> y"
  note b = YearFromDay_bounds [of dy]
  show False
  proof (cases "YearFromDay dy < y")
    case True
    then have "DayFromYear (YearFromDay dy + 1) \<le> DayFromYear y"
      using DayFromYear_mono [of "YearFromDay dy + 1" y] by simp
    with assms(1) b show False by simp
  next
    case False
    with ne have "DayFromYear (y + 1) \<le> DayFromYear (YearFromDay dy)"
      using DayFromYear_mono [of "y + 1" "YearFromDay dy"] by simp
    with assms(2) b show False by simp
  qed
qed


lemma div_mod_step:
  fixes q n r :: int
  assumes "0 \<le> r" and "r < n"
  shows "(q * n + r) div n = q" and "(q * n + r) mod n = r"
  using assms by simp_all

lemma msPerDay_pos: "0 < msPerDay"
  by (simp add: msPerDay_def)

lemma Day_MakeDate:
  assumes "0 \<le> tm" and "tm < msPerDay"
  shows "Day (MakeDate dn tm) = dn" and "TimeWithinDay (MakeDate dn tm) = tm"
  unfolding Day_def TimeWithinDay_def MakeDate_def using assms by (rule div_mod_step)+

lemma isLeapYear_DaysInYear: "isLeapYear y \<longleftrightarrow> DaysInYear y = 366"
  unfolding isLeapYear_dvd DaysInYear_def dvd_eq_mod_eq_0
  using mod_400_100 [of y] mod_100_4 [of y]
  by (cases "y mod 4 = 0"; cases "y mod 100 = 0"; cases "y mod 400 = 0"; simp)

lemma month_cases:
  "0 \<le> (m::int) \<Longrightarrow> m \<le> 11 \<Longrightarrow>
   m = 0 \<or> m = 1 \<or> m = 2 \<or> m = 3 \<or> m = 4 \<or> m = 5 \<or> m = 6
   \<or> m = 7 \<or> m = 8 \<or> m = 9 \<or> m = 10 \<or> m = 11"
  by arith

lemma in_year:
  assumes "0 \<le> m" and "m \<le> 11" and "1 \<le> d" and "d \<le> daysInMonth m y"
  shows "0 \<le> monthStart m (if DaysInYear y = 366 then 1 else 0) + d - 1"
    and "monthStart m (if DaysInYear y = 366 then 1 else 0) + d - 1 < DaysInYear y"
proof -
  have y: "DaysInYear y = 365 \<or> DaysInYear y = 366"
    by (simp add: DaysInYear_def)
  show "0 \<le> monthStart m (if DaysInYear y = 366 then 1 else 0) + d - 1"
    using assms(3) by (simp add: monthStart_def)
  show "monthStart m (if DaysInYear y = 366 then 1 else 0) + d - 1 < DaysInYear y"
    using month_cases [OF assms(1,2)] assms(4) y
    by (elim disjE) (simp_all add: monthStart_def daysInMonth_def isLeapYear_DaysInYear)
qed

lemma MakeDay_plain:
  assumes "0 \<le> m" and "m \<le> 11"
  shows "MakeDay y m d
           = DayFromYear y + monthStart m (if DaysInYear y = 366 then 1 else 0) + d - 1"
proof -
  have "m div 12 = 0" "m mod 12 = m" using assms by simp_all
  then show ?thesis by (simp add: MakeDay_def)
qed

lemma YearFromTime_MakeDate:
  assumes "0 \<le> m" and "m \<le> 11" and "1 \<le> d" and "d \<le> daysInMonth m y"
    and "0 \<le> tm" and "tm < msPerDay"
  shows "YearFromTime (MakeDate (MakeDay y m d) tm) = y"
proof -
  have "DayFromYear y \<le> MakeDay y m d" "MakeDay y m d < DayFromYear (y + 1)"
    using in_year [OF assms(1-4)]
    unfolding MakeDay_plain [OF assms(1,2)] DayFromYear_Suc by simp_all
  then have "YearFromDay (MakeDay y m d) = y" by (rule YearFromDay_unique)
  then show ?thesis by (simp add: YearFromTime_def Day_MakeDate [OF assms(5,6)])
qed

lemma DayWithinYear_MakeDate:
  assumes "0 \<le> m" and "m \<le> 11" and "1 \<le> d" and "d \<le> daysInMonth m y"
    and "0 \<le> tm" and "tm < msPerDay"
  shows "DayWithinYear (MakeDate (MakeDay y m d) tm)
           = monthStart m (if DaysInYear y = 366 then 1 else 0) + d - 1"
    and "InLeapYear (MakeDate (MakeDay y m d) tm) = (if DaysInYear y = 366 then 1 else 0)"
  unfolding DayWithinYear_def InLeapYear_def YearFromTime_MakeDate [OF assms]
    Day_MakeDate [OF assms(5,6)]
  by (simp_all add: MakeDay_plain [OF assms(1,2)])

lemma MonthFromTime_MakeDate:
  assumes "0 \<le> m" and "m \<le> 11" and "1 \<le> d" and "d \<le> daysInMonth m y"
    and "0 \<le> tm" and "tm < msPerDay"
  shows "MonthFromTime (MakeDate (MakeDay y m d) tm) = m"
  unfolding MonthFromTime_def DayWithinYear_MakeDate [OF assms] Let_def
  using month_cases [OF assms(1,2)] assms(3,4)
  by (elim disjE)
    (simp_all add: monthStart_def daysInMonth_def isLeapYear_DaysInYear split: if_splits)

lemma DateFromTime_MakeDate:
  assumes "0 \<le> m" and "m \<le> 11" and "1 \<le> d" and "d \<le> daysInMonth m y"
    and "0 \<le> tm" and "tm < msPerDay"
  shows "DateFromTime (MakeDate (MakeDay y m d) tm) = d"
  unfolding DateFromTime_def DayWithinYear_MakeDate [OF assms] MonthFromTime_MakeDate [OF assms]
  by simp

text \<open>
  What the getters return for any date: a month from 0 to 11, a day of the month
  from 1 to 31, a time of day below \<open>msPerDay\<close>.
\<close>

lemma DaysInYear_cases: "DaysInYear y = 365 \<or> DaysInYear y = 366"
  by (simp add: DaysInYear_def)

lemma DayWithinYear_range:
  "0 \<le> DayWithinYear t \<and> DayWithinYear t < DaysInYear (YearFromTime t)"
  using YearFromDay_bounds [of "Day t"] DayFromYear_Suc [of "YearFromDay (Day t)"]
  by (simp add: DayWithinYear_def YearFromTime_def)

lemma InLeapYear_DaysInYear:
  "DaysInYear (YearFromTime t) = 365 + InLeapYear t \<and> (InLeapYear t = 0 \<or> InLeapYear t = 1)"
  using DaysInYear_cases [of "YearFromTime t"] by (auto simp: InLeapYear_def)

lemma MonthFromTime_range: "0 \<le> MonthFromTime t \<and> MonthFromTime t \<le> 11"
  by (simp add: MonthFromTime_def Let_def)

lemma month_date_table:
  fixes w l :: int
  assumes "0 \<le> w" and "w < 365 + l" and "l = 0 \<or> l = 1"
  shows "1 \<le> w - monthStart
                 (if w < 31 then 0
                  else if w < 59 + l then 1
                  else if w < 90 + l then 2
                  else if w < 120 + l then 3
                  else if w < 151 + l then 4
                  else if w < 181 + l then 5
                  else if w < 212 + l then 6
                  else if w < 243 + l then 7
                  else if w < 273 + l then 8
                  else if w < 304 + l then 9
                  else if w < 334 + l then 10
                  else 11) l + 1
         \<and> w - monthStart
                 (if w < 31 then 0
                  else if w < 59 + l then 1
                  else if w < 90 + l then 2
                  else if w < 120 + l then 3
                  else if w < 151 + l then 4
                  else if w < 181 + l then 5
                  else if w < 212 + l then 6
                  else if w < 243 + l then 7
                  else if w < 273 + l then 8
                  else if w < 304 + l then 9
                  else if w < 334 + l then 10
                  else 11) l + 1 \<le> 31"
  using assms unfolding monthStart_def by (elim disjE) simp_all

lemma DateFromTime_range: "1 \<le> DateFromTime t \<and> DateFromTime t \<le> 31"
proof -
  have "0 \<le> DayWithinYear t" "DayWithinYear t < 365 + InLeapYear t"
    "InLeapYear t = 0 \<or> InLeapYear t = 1"
    using DayWithinYear_range [of t] InLeapYear_DaysInYear [of t] by simp_all
  then show ?thesis
    unfolding DateFromTime_def MonthFromTime_def Let_def by (rule month_date_table)
qed

lemma TimeWithinDay_range: "0 \<le> TimeWithinDay t \<and> TimeWithinDay t < msPerDay"
  by (simp add: TimeWithinDay_def msPerDay_def)

lemma getMonth_range: "0 \<le> getMonth t \<and> getMonth t \<le> 11"
  by (simp add: getMonth_def MonthFromTime_def Let_def)

text \<open>
  Every time value of a year from -270000 to 270000, and of the day before such a
  year, is within the range of \<open>TimeClip\<close>.
\<close>

lemma TimeClip_Some: "\<bar>t\<bar> \<le> 8640000000000000 \<Longrightarrow> TimeClip t = Some t"
  by (simp add: TimeClip_def)

lemma DayFromYear_low: "DayFromYear (- 270000) = - 99335003"
  by (simp add: DayFromYear_def)

lemma DayFromYear_high: "DayFromYear 270001 = 97896313"
  by (simp add: DayFromYear_def)

lemma TimeClip_in_year:
  assumes "- 270000 \<le> y" and "y \<le> 270000"
    and "DayFromYear y - 1 \<le> dn" and "dn < DayFromYear (y + 1)"
    and "0 \<le> tm" and "tm < msPerDay"
  shows "TimeClip (MakeDate dn tm) = Some (MakeDate dn tm)"
proof -
  have "DayFromYear (- 270000) \<le> DayFromYear y" using assms(1) by (rule DayFromYear_mono)
  then have lo: "- 99335004 \<le> dn" using assms(3) by (simp add: DayFromYear_low)
  have "DayFromYear (y + 1) \<le> DayFromYear 270001"
    using assms(2) by (intro DayFromYear_mono) simp
  then have hi: "dn \<le> 97896312" using assms(4) by (simp add: DayFromYear_high)
  have "- 8640000000000000 \<le> dn * 86400000 + tm" "dn * 86400000 + tm \<le> 8640000000000000"
    using lo hi assms(5,6) by (simp_all add: msPerDay_def)
  then show ?thesis
    by (intro TimeClip_Some) (simp add: MakeDate_def msPerDay_def)
qed

lemma MakeDay_near_year:
  assumes "0 \<le> m" and "m \<le> 11" and "0 \<le> d" and "d \<le> daysInMonth m y"
  shows "DayFromYear y - 1 \<le> MakeDay y m d" and "MakeDay y m d < DayFromYear (y + 1)"
proof -
  have one: "1 \<le> daysInMonth m y" by (simp add: daysInMonth_def)
  have s: "0 \<le> monthStart m (if DaysInYear y = 366 then 1 else 0)"
    by (simp add: monthStart_def)
  show "DayFromYear y - 1 \<le> MakeDay y m d"
    unfolding MakeDay_plain [OF assms(1,2)] using s assms(3) by simp
  show "MakeDay y m d < DayFromYear (y + 1)"
  proof (cases "d = 0")
    case True
    then show ?thesis
      unfolding MakeDay_plain [OF assms(1,2)] DayFromYear_Suc
      using in_year(2) [OF assms(1,2) _ one] by simp
  next
    case False
    then have "1 \<le> d" using assms(3) by simp
    then show ?thesis
      unfolding MakeDay_plain [OF assms(1,2)] DayFromYear_Suc
      using in_year(2) [OF assms(1,2) _ assms(4)] by simp
  qed
qed

text \<open>
  For a valid date and a year from -270000 to 270000: \<open>setFullYear\<close> lands in the
  year it is given and keeps the time of day. \<open>setMonth\<close> lands in the month it is
  given when that month has 31 days, and \<open>setDate\<close> lands on the day it is given
  when the month has that day; otherwise the day runs over into a later month.
\<close>

lemma setFullYear_fields:
  assumes "- 270000 \<le> y" and "y \<le> 270000"
  shows "\<exists>u. setFullYear (Some t) y = Some u \<and> YearFromTime u = y
              \<and> TimeWithinDay u = TimeWithinDay t"
proof -
  define M where "M = MonthFromTime t"
  define D where "D = DateFromTime t"
  define tm where "tm = TimeWithinDay t"
  define u where "u = MakeDate (MakeDay y M D) tm"
  have M: "0 \<le> M" "M \<le> 11" using MonthFromTime_range [of t] by (simp_all add: M_def)
  have D: "1 \<le> D" "D \<le> 31" using DateFromTime_range [of t] by (simp_all add: D_def)
  have tm: "0 \<le> tm" "tm < msPerDay" using TimeWithinDay_range [of t] by (simp_all add: tm_def)
  have e: "setFullYear (Some t) y = TimeClip u"
    by (simp add: setFullYear_def M_def D_def tm_def u_def)
  have b: "monthStart M (if DaysInYear y = 366 then 1 else 0) + D - 1 < DaysInYear y"
    using month_cases [OF M] D DaysInYear_cases [of y]
    by (elim disjE) (simp_all add: monthStart_def)
  have r: "DayFromYear y \<le> MakeDay y M D" "MakeDay y M D < DayFromYear (y + 1)"
    unfolding MakeDay_plain [OF M] DayFromYear_Suc using b D M
    by (simp_all add: monthStart_def)
  have "DayFromYear y - 1 \<le> MakeDay y M D" using r(1) by simp
  then have c: "TimeClip u = Some u"
    unfolding u_def using r(2) tm by (intro TimeClip_in_year [OF assms])
  have "YearFromDay (MakeDay y M D) = y" using r by (rule YearFromDay_unique)
  then have "YearFromTime u = y"
    by (simp add: u_def YearFromTime_def Day_MakeDate(1) [OF tm])
  moreover have "TimeWithinDay u = tm"
    unfolding u_def by (rule Day_MakeDate(2) [OF tm])
  ultimately show ?thesis
    using e c by (simp add: tm_def)
qed

lemma setMonth_fields:
  assumes "- 270000 \<le> YearFromTime t" and "YearFromTime t \<le> 270000"
    and "0 \<le> m" and "m \<le> 11" and "daysInMonth m (YearFromTime t) = 31"
  shows "\<exists>u. setMonth (Some t) m = Some u \<and> YearFromTime u = YearFromTime t
              \<and> MonthFromTime u = m \<and> TimeWithinDay u = TimeWithinDay t"
proof -
  define u where "u = MakeDate (MakeDay (YearFromTime t) m (DateFromTime t)) (TimeWithinDay t)"
  have D: "1 \<le> DateFromTime t" "DateFromTime t \<le> daysInMonth m (YearFromTime t)"
    using DateFromTime_range [of t] assms(5) by simp_all
  have D0: "0 \<le> DateFromTime t" using D(1) by simp
  have tm: "0 \<le> TimeWithinDay t" "TimeWithinDay t < msPerDay"
    using TimeWithinDay_range [of t] by simp_all
  have e: "setMonth (Some t) m = TimeClip u"
    by (simp add: setMonth_def u_def)
  have c: "TimeClip u = Some u"
    unfolding u_def
    by (rule TimeClip_in_year [OF assms(1,2) MakeDay_near_year [OF assms(3,4) D0 D(2)] tm])
  have "YearFromTime u = YearFromTime t"
    unfolding u_def by (rule YearFromTime_MakeDate [OF assms(3,4) D tm])
  moreover have "MonthFromTime u = m"
    unfolding u_def by (rule MonthFromTime_MakeDate [OF assms(3,4) D tm])
  moreover have "TimeWithinDay u = TimeWithinDay t"
    unfolding u_def by (rule Day_MakeDate(2) [OF tm])
  ultimately show ?thesis using e c by simp
qed

lemma setDate_value:
  assumes "- 270000 \<le> YearFromTime t" and "YearFromTime t \<le> 270000"
    and "0 \<le> d" and "d \<le> daysInMonth (MonthFromTime t) (YearFromTime t)"
  shows "setDate (Some t) d
           = Some (MakeDate (MakeDay (YearFromTime t) (MonthFromTime t) d) (TimeWithinDay t))"
proof -
  have M: "0 \<le> MonthFromTime t" "MonthFromTime t \<le> 11"
    using MonthFromTime_range [of t] by simp_all
  have tm: "0 \<le> TimeWithinDay t" "TimeWithinDay t < msPerDay"
    using TimeWithinDay_range [of t] by simp_all
  have "TimeClip (MakeDate (MakeDay (YearFromTime t) (MonthFromTime t) d) (TimeWithinDay t))
          = Some (MakeDate (MakeDay (YearFromTime t) (MonthFromTime t) d) (TimeWithinDay t))"
    by (rule TimeClip_in_year [OF assms(1,2) MakeDay_near_year [OF M assms(3,4)] tm])
  then show ?thesis by (simp add: setDate_def)
qed

lemma setDate_fields:
  assumes "- 270000 \<le> YearFromTime t" and "YearFromTime t \<le> 270000"
    and "1 \<le> d" and "d \<le> daysInMonth (MonthFromTime t) (YearFromTime t)"
  shows "\<exists>u. setDate (Some t) d = Some u \<and> YearFromTime u = YearFromTime t
              \<and> MonthFromTime u = MonthFromTime t \<and> TimeWithinDay u = TimeWithinDay t"
proof -
  define u where
    "u = MakeDate (MakeDay (YearFromTime t) (MonthFromTime t) d) (TimeWithinDay t)"
  have M: "0 \<le> MonthFromTime t" "MonthFromTime t \<le> 11"
    using MonthFromTime_range [of t] by simp_all
  have tm: "0 \<le> TimeWithinDay t" "TimeWithinDay t < msPerDay"
    using TimeWithinDay_range [of t] by simp_all
  have d0: "0 \<le> d" using assms(3) by simp
  have e: "setDate (Some t) d = Some u"
    unfolding u_def by (rule setDate_value [OF assms(1,2) d0 assms(4)])
  have "YearFromTime u = YearFromTime t"
    unfolding u_def by (rule YearFromTime_MakeDate [OF M assms(3,4) tm])
  moreover have "MonthFromTime u = MonthFromTime t"
    unfolding u_def by (rule MonthFromTime_MakeDate [OF M assms(3,4) tm])
  moreover have "TimeWithinDay u = TimeWithinDay t"
    unfolding u_def by (rule Day_MakeDate(2) [OF tm])
  ultimately show ?thesis using e by simp
qed

text \<open>
  \<open>new Date(y, m, d)\<close> for a month from 0 to 11 and a day of that month: midnight
  of that day in the year \<open>y\<close>, when \<open>y\<close> is not from 0 to 99.
\<close>

lemma newDate_value:
  assumes "y < 0 \<or> 99 < y" and "- 270000 \<le> y" and "y \<le> 270000"
    and "0 \<le> m" and "m \<le> 11" and "1 \<le> d" and "d \<le> daysInMonth m y"
  shows "newDate y m d = Some (MakeDate (MakeDay y m d) 0)"
proof -
  have e: "newDate y m d = TimeClip (MakeDate (MakeDay y m d) 0)"
    using assms(1) by (auto simp: newDate_def)
  have t: "(0::int) \<le> 0" "0 < msPerDay" by (simp_all add: msPerDay_def)
  have d0: "0 \<le> d" using assms(6) by simp
  show ?thesis
    unfolding e
    by (rule TimeClip_in_year [OF assms(2,3) MakeDay_near_year [OF assms(4,5) d0 assms(7)] t])
qed

lemma MakeDate_getters:
  assumes "0 \<le> m" and "m \<le> 11" and "1 \<le> d" and "d \<le> daysInMonth m y"
  shows "getFullYear (MakeDate (MakeDay y m d) 0) = y"
    and "getMonth (MakeDate (MakeDay y m d) 0) = m"
    and "getDate (MakeDate (MakeDay y m d) 0) = d"
    and "TimeWithinDay (MakeDate (MakeDay y m d) 0) = 0"
proof -
  have t: "(0::int) \<le> 0" "0 < msPerDay" by (simp_all add: msPerDay_def)
  show "getFullYear (MakeDate (MakeDay y m d) 0) = y"
    unfolding getFullYear_def by (rule YearFromTime_MakeDate [OF assms t])
  show "getMonth (MakeDate (MakeDay y m d) 0) = m"
    unfolding getMonth_def by (rule MonthFromTime_MakeDate [OF assms t])
  show "getDate (MakeDate (MakeDay y m d) 0) = d"
    unfolding getDate_def by (rule DateFromTime_MakeDate [OF assms t])
  show "TimeWithinDay (MakeDate (MakeDay y m d) 0) = 0"
    by (rule Day_MakeDate(2) [OF t])
qed

lemma newDate_two_digit_year:
  assumes "0 \<le> y" and "y \<le> 99"
  shows "newDate y m d = newDate (1900 + y) m d"
  using assms by (simp add: newDate_def)

text \<open>
  The first and the last date: 20 April of the year -271821 and 13 September of
  the year 275760. A day further the constructor gives an invalid date.
\<close>

lemma newDate_range_ends:
  "newDate 275760 8 13 = Some 8640000000000000 \<and> newDate 275760 8 14 = None
   \<and> newDate (- 271821) 3 20 = Some (- 8640000000000000) \<and> newDate (- 271821) 3 19 = None"
  by code_simp


section \<open>Days in a month\<close>

text \<open>
  Claim C9. For every year \<open>y\<close>, \<open>isLeapYear y\<close> holds iff \<open>y\<close> is divisible by 4 and
  not by 100, or divisible by 400; \<open>daysInMonth 1 y\<close> is 29 in a leap year and 28
  otherwise; for the months 0, 2, 4, 6, 7, 9, 11 the result is 31 and for the months
  3, 5, 8, 10 it is 30, whatever the year.
\<close>

theorem daysInMonth_spec:
  "isLeapYear y = ((4 dvd y \<and> \<not> 100 dvd y) \<or> 400 dvd y)
   \<and> daysInMonth 1 y = (if isLeapYear y then 29 else 28)
   \<and> (m \<in> {0, 2, 4, 6, 7, 9, 11} \<longrightarrow>
         daysInMonth m y = 31 \<and> daysInMonth m y = daysInMonth m y')
   \<and> (m \<in> {3, 5, 8, 10} \<longrightarrow>
         daysInMonth m y = 30 \<and> daysInMonth m y = daysInMonth m y')"
  by (auto simp: isLeapYear_dvd daysInMonth_def)

theorem daysInMonth_spec_witness:
  "isLeapYear 2024 \<and> isLeapYear 2000 \<and> \<not> isLeapYear 1900 \<and> \<not> isLeapYear 2023
   \<and> daysInMonth 1 2024 = 29 \<and> daysInMonth 1 2023 = 28
   \<and> daysInMonth 6 2023 = 31 \<and> daysInMonth 8 2023 = 30"
  using daysInMonth_spec [of 2024 6 2023] daysInMonth_spec [of 2023 8 2023]
    daysInMonth_spec [of 2000 0 0] daysInMonth_spec [of 1900 0 0]
  by simp


section \<open>The validity check in Year view and without a range\<close>

text \<open>
  The dates of the configuration in the examples are written by their time values:
  \<open>MakeDate (MakeDay 2023 0 10) 0\<close> is the date \<open>new Date(2023, 0, 10)\<close> of the host.
\<close>

lemma newDate_examples:
  "newDate 2023 0 1 = Some (MakeDate (MakeDay 2023 0 1) 0)"
  "newDate 2023 11 31 = Some (MakeDate (MakeDay 2023 11 31) 0)"
  "newDate 2023 0 10 = Some (MakeDate (MakeDay 2023 0 10) 0)"
  "newDate 2023 1 1 = Some (MakeDate (MakeDay 2023 1 1) 0)"
  "newDate 2023 1 28 = Some (MakeDate (MakeDay 2023 1 28) 0)"
  "newDate 2023 0 20 = Some (MakeDate (MakeDay 2023 0 20) 0)"
  "newDate 2023 0 31 = Some (MakeDate (MakeDay 2023 0 31) 0)"
  "newDate 2023 2 10 = Some (MakeDate (MakeDay 2023 2 10) 0)"
  "newDate 1000 0 1 = Some (MakeDate (MakeDay 1000 0 1) 0)"
  by (simp_all add: newDate_value daysInMonth_def isLeapYear_def)

lemma getFullYear_2023_first: "getFullYear (MakeDate (MakeDay 2023 0 1) 0) = 2023"
  by code_simp

lemma getFullYear_2023_last: "getFullYear (MakeDate (MakeDay 2023 11 31) 0) = 2023"
  by code_simp

text \<open>
  Claim C3. In Year view \<open>isValid\<close> returns true iff \<open>minDate\<close> is absent or its year
  is at most the candidate's year, and \<open>maxDate\<close> is absent or its year is at least
  the candidate's year. The witness is the example of the specification: with the
  range 2023-01-01 to 2023-12-31 the year 2022 is invalid and the year 2023 is valid.
\<close>

theorem isValid_year_view:
  "fst (isValid YearView minDate maxDate now d)
     = ((case minDate of None \<Rightarrow> True | Some mn \<Rightarrow> getFullYear mn \<le> year d)
        \<and> (case maxDate of None \<Rightarrow> True | Some mx \<Rightarrow> getFullYear mx \<ge> year d))"
  by (simp add: isValid_def Let_def split: option.splits)

theorem isValid_year_view_witness:
  "\<not> fst (isValid YearView (Some (MakeDate (MakeDay 2023 0 1) 0)) (Some (MakeDate (MakeDay 2023 11 31) 0))
            (MakeDate (MakeDay 2023 5 15) 43200000)
            \<lparr>day = None, month = None, year = 2022\<rparr>)
   \<and> fst (isValid YearView (Some (MakeDate (MakeDay 2023 0 1) 0)) (Some (MakeDate (MakeDay 2023 11 31) 0))
            (MakeDate (MakeDay 2023 5 15) 43200000)
            \<lparr>day = None, month = None, year = 2023\<rparr>)"
  using
    isValid_year_view [of "Some (MakeDate (MakeDay 2023 0 1) 0)" "Some (MakeDate (MakeDay 2023 11 31) 0)"
      "MakeDate (MakeDay 2023 5 15) 43200000" "\<lparr>day = None, month = None, year = 2022\<rparr>"]
    isValid_year_view [of "Some (MakeDate (MakeDay 2023 0 1) 0)" "Some (MakeDate (MakeDay 2023 11 31) 0)"
      "MakeDate (MakeDay 2023 5 15) 43200000" "\<lparr>day = None, month = None, year = 2023\<rparr>"]
  by (simp add: getFullYear_2023_first getFullYear_2023_last)

text \<open>
  Claim C10. With neither \<open>minDate\<close> nor \<open>maxDate\<close> configured, \<open>isValid\<close> returns
  true for every candidate in every view.
\<close>

theorem isValid_no_range: "fst (isValid v None None now d)"
  by (simp add: isValid_def Let_def)

theorem isValid_no_range_witness:
  "fst (isValid DateView None None (MakeDate (MakeDay 2023 5 15) 43200000)
          \<lparr>day = Some 31, month = Some 11, year = 1999\<rparr>)
   \<and> fst (isValid MonthView None None (MakeDate (MakeDay 2023 5 15) 43200000)
          \<lparr>day = None, month = Some 1, year = 2023\<rparr>)
   \<and> fst (isValid YearView None None (MakeDate (MakeDay 2023 5 15) 43200000)
          \<lparr>day = None, month = None, year = 2050\<rparr>)"
  using
    isValid_no_range [of DateView "MakeDate (MakeDay 2023 5 15) 43200000"
      "\<lparr>day = Some 31, month = Some 11, year = 1999\<rparr>"]
    isValid_no_range [of MonthView "MakeDate (MakeDay 2023 5 15) 43200000"
      "\<lparr>day = None, month = Some 1, year = 2023\<rparr>"]
    isValid_no_range [of YearView "MakeDate (MakeDay 2023 5 15) 43200000"
      "\<lparr>day = None, month = None, year = 2050\<rparr>"]
  by simp


section \<open>The validity check in Date and Month view\<close>

text \<open>
  The date that Date view compares, when the candidate's month has 31 days and its
  year is from -270000 to 270000.
\<close>

lemma date_view_compared:
  assumes "- 270000 \<le> y" and "y \<le> 270000"
    and "0 \<le> m" and "m \<le> 11" and "daysInMonth m y = 31" and "1 \<le> d" and "d \<le> 31"
  shows "setDate (setDate (setMonth (setFullYear (Some now) y) m) d) (d - 1)
           = Some (MakeDate (MakeDay y m (d - 1)) (TimeWithinDay now))"
proof -
  obtain t1 where t1: "setFullYear (Some now) y = Some t1" "YearFromTime t1 = y"
      "TimeWithinDay t1 = TimeWithinDay now"
    using setFullYear_fields [OF assms(1,2), of now] by blast
  obtain t2 where t2: "setMonth (Some t1) m = Some t2" "YearFromTime t2 = y"
      "MonthFromTime t2 = m" "TimeWithinDay t2 = TimeWithinDay now"
    using setMonth_fields [of t1 m] assms(1-5) t1(2,3) by auto
  obtain t3 where t3: "setDate (Some t2) d = Some t3" "YearFromTime t3 = y"
      "MonthFromTime t3 = m" "TimeWithinDay t3 = TimeWithinDay now"
    using setDate_fields [of t2 d] assms(1,2,5-7) t2(2-4) by auto
  have "setDate (Some t3) (d - 1)
          = Some (MakeDate (MakeDay y m (d - 1)) (TimeWithinDay now))"
    using setDate_value [of t3 "d - 1"] assms(1,2,5-7) t3(2-4) by simp
  then show ?thesis by (simp add: t1(1) t2(1) t3(1))
qed

lemma isValid_date_view_31:
  assumes "- 270000 \<le> y" and "y \<le> 270000"
    and "0 \<le> m" and "m \<le> 11" and "daysInMonth m y = 31" and "1 \<le> d" and "d \<le> 31"
  shows "fst (isValid DateView minDate maxDate now \<lparr>day = Some d, month = Some m, year = y\<rparr>)
           = (\<not> (case maxDate of None \<Rightarrow> False
                  | Some mx \<Rightarrow> MakeDate (MakeDay y m (d - 1)) (TimeWithinDay now) > mx)
              \<and> \<not> (case minDate of None \<Rightarrow> False
                  | Some mn \<Rightarrow> MakeDate (MakeDay y m (d - 1)) (TimeWithinDay now) < mn))"
  using assms(6)
  by (simp add: isValid_def Let_def date_view_compared [OF assms] split: option.splits)

text \<open>
  In a month of 31 days the first day of the range is rejected, whatever the clock
  reads and whatever the time of day of \<open>minDate\<close>.
\<close>

lemma isValid_date_view_rejects_minDate_day:
  assumes "- 270000 \<le> y" and "y \<le> 270000"
    and "0 \<le> m" and "m \<le> 11" and "daysInMonth m y = 31" and "1 \<le> d" and "d \<le> 31"
    and "0 \<le> tm"
  shows "\<not> fst (isValid DateView (Some (MakeDate (MakeDay y m d) tm)) maxDate now
                 \<lparr>day = Some d, month = Some m, year = y\<rparr>)"
proof -
  have k: "MakeDay y m d = MakeDay y m (d - 1) + 1"
    by (simp add: MakeDay_def Let_def)
  have "TimeWithinDay now < msPerDay" using TimeWithinDay_range [of now] by simp
  then have "MakeDate (MakeDay y m (d - 1)) (TimeWithinDay now) < MakeDate (MakeDay y m d) tm"
    unfolding MakeDate_def k using assms(8) by (simp add: distrib_right)
  then show ?thesis
    unfolding isValid_date_view_31 [OF assms(1-7)] by (simp split: option.splits)
qed

text \<open>
  The date \<open>isValid\<close> compares with the range, for the two inputs below: in Date
  view, for the candidate 2023-01-10 on 2023-06-15 at 12:00, it is 2023-01-09 at
  12:00; in Month view, for February 2023 on the same day, it is 2023-01-27 at 12:00.
\<close>

lemma date_compared_date_view:
  "setDate
     (setDate (setMonth (setFullYear (Some (MakeDate (MakeDay 2023 5 15) 43200000)) 2023) 0) 10)
     (10 - 1)
   = Some (MakeDate (MakeDay 2023 0 9) 43200000)"
  by code_simp

lemma date_compared_month_view:
  "setDate
     (setMonth
        (setDate
           (setMonth (setFullYear (Some (MakeDate (MakeDay 2023 5 15) 43200000)) 2023) 1)
           (daysInMonth 1 2023))
        (1 - 1))
     (daysInMonth 1 2023 - 1)
   = Some (MakeDate (MakeDay 2023 0 27) 43200000)"
  by code_simp

text \<open>
  Claim C1, at an input where the code departs from it. The range starts on
  2023-01-10 (midnight) and has no end; the clock reads 2023-06-15, 12:00. In Date
  view the candidate 2023-01-10 is the first day of the range, and \<open>isValid\<close>
  returns false: it compares the day before the candidate, at the time of day of
  the clock, with \<open>minDate\<close>.
\<close>

theorem isValid_date_view_first_day:
  "fst (isValid DateView (Some (MakeDate (MakeDay 2023 0 10) 0)) None
          (MakeDate (MakeDay 2023 5 15) 43200000)
          \<lparr>day = Some 10, month = Some 0, year = 2023\<rparr>) = False"
  by code_simp

text \<open>
  Claim C2, at inputs where the code departs from it. The clock reads 2023-06-15,
  12:00. In Month view, with the range 2023-02-01 to 2023-02-28, every day of
  February 2023 lies in the range and \<open>isValid\<close> returns false for February 2023;
  with the range 2023-01-20 to 2023-01-31 no day of February lies in the range and
  \<open>isValid\<close> returns true for it.
\<close>

theorem isValid_month_view_february:
  "fst (isValid MonthView (Some (MakeDate (MakeDay 2023 1 1) 0)) (Some (MakeDate (MakeDay 2023 1 28) 0))
          (MakeDate (MakeDay 2023 5 15) 43200000)
          \<lparr>day = None, month = Some 1, year = 2023\<rparr>) = False
   \<and> fst (isValid MonthView (Some (MakeDate (MakeDay 2023 0 20) 0)) (Some (MakeDate (MakeDay 2023 0 31) 0))
          (MakeDate (MakeDay 2023 5 15) 43200000)
          \<lparr>day = None, month = Some 1, year = 2023\<rparr>) = True"
  by code_simp


section \<open>What the validity check writes and reads\<close>








section \<open>The month shown stays a month\<close>

lemma effect_month:
  "0 \<le> MonthYear.month (monthYear s) \<and> MonthYear.month (monthYear s) \<le> 11 \<Longrightarrow>
   0 \<le> MonthYear.month (monthYear (effect b s))
   \<and> MonthYear.month (monthYear (effect b s)) \<le> 11"
  using getMonth_range [of "date s"] by (simp add: effect_def)

lemma handler_month:
  assumes "0 \<le> MonthYear.month (monthYear s) \<and> MonthYear.month (monthYear s) \<le> 11"
    and "\<forall>m. e = SelectMonth m \<longrightarrow> 0 \<le> m \<and> m \<le> 11"
  shows "0 \<le> MonthYear.month (monthYear (handler s e))
         \<and> MonthYear.month (monthYear (handler s e)) \<le> 11"
  using assms by (cases e) (simp_all add: nextMonth_def prevMonth_def)

lemma step_month:
  assumes "0 \<le> MonthYear.month (monthYear s) \<and> MonthYear.month (monthYear s) \<le> 11"
    and "\<forall>m. e = SelectMonth m \<longrightarrow> 0 \<le> m \<and> m \<le> 11"
  shows "0 \<le> MonthYear.month (monthYear (step s e))
         \<and> MonthYear.month (monthYear (step s e)) \<le> 11"
  unfolding step_def using handler_month [OF assms] by (rule effect_month)

lemma init_month:
  "0 \<le> MonthYear.month (monthYear (init dt)) \<and> MonthYear.month (monthYear (init dt)) \<le> 11"
  using getMonth_range [of dt] by (simp add: init_def)

lemma run_month:
  "\<forall>e \<in> set es. \<forall>m. e = SelectMonth m \<longrightarrow> 0 \<le> m \<and> m \<le> 11 \<Longrightarrow>
   0 \<le> MonthYear.month (monthYear s) \<and> MonthYear.month (monthYear s) \<le> 11 \<Longrightarrow>
   0 \<le> MonthYear.month (monthYear (run s es))
   \<and> MonthYear.month (monthYear (run s es)) \<le> 11"
proof (induction es arbitrary: s)
  case Nil
  then show ?case by (simp add: run_def)
next
  case (Cons e es)
  have "0 \<le> MonthYear.month (monthYear (step s e))
        \<and> MonthYear.month (monthYear (step s e)) \<le> 11"
    using Cons.prems by (intro step_month) simp_all
  then show ?case using Cons.IH [of "step s e"] Cons.prems(1) by (simp add: run_def)
qed

text \<open>
  Claim C6. From a state whose month shown is in 0 to 11, every operation leads to
  a state whose month shown is in 0 to 11, \<open>selectMonth\<close> when its argument is in
  0 to 11; \<open>nextMonth\<close> takes month 11 of year \<open>Y\<close> to month 0 of year \<open>Y + 1\<close> and
  \<open>prevMonth\<close> takes month 0 of year \<open>Y\<close> to month 11 of year \<open>Y - 1\<close>.
\<close>

theorem month_in_range:
  "(0 \<le> MonthYear.month (monthYear s) \<and> MonthYear.month (monthYear s) \<le> 11 \<longrightarrow>
    (\<forall>m. e = SelectMonth m \<longrightarrow> 0 \<le> m \<and> m \<le> 11) \<longrightarrow>
    0 \<le> MonthYear.month (monthYear (step s e))
    \<and> MonthYear.month (monthYear (step s e)) \<le> 11)
   \<and> nextMonth \<lparr>MonthYear.month = 11, MonthYear.year = Y\<rparr>
       = \<lparr>MonthYear.month = 0, MonthYear.year = Y + 1\<rparr>
   \<and> prevMonth \<lparr>MonthYear.month = 0, MonthYear.year = Y\<rparr>
       = \<lparr>MonthYear.month = 11, MonthYear.year = Y - 1\<rparr>"
  using step_month [of s e] by (simp add: nextMonth_def prevMonth_def)

theorem month_in_range_witness:
  "MonthYear.month (monthYear (step
      \<lparr>date = 0, monthYear = \<lparr>MonthYear.month = 11, MonthYear.year = 2023\<rparr>,
       view = DateView, isVisible = True, onChange = []\<rparr> NextMonth)) \<in> {0..11}
   \<and> MonthYear.month (monthYear (step
      \<lparr>date = 0, monthYear = \<lparr>MonthYear.month = 11, MonthYear.year = 2023\<rparr>,
       view = MonthView, isVisible = True, onChange = []\<rparr> (SelectMonth 4))) \<in> {0..11}
   \<and> nextMonth \<lparr>MonthYear.month = 11, MonthYear.year = 2023\<rparr>
       = \<lparr>MonthYear.month = 0, MonthYear.year = 2024\<rparr>
   \<and> prevMonth \<lparr>MonthYear.month = 0, MonthYear.year = 2023\<rparr>
       = \<lparr>MonthYear.month = 11, MonthYear.year = 2022\<rparr>"
  using
    month_in_range [of "\<lparr>date = 0,
       monthYear = \<lparr>MonthYear.month = 11, MonthYear.year = 2023\<rparr>,
       view = DateView, isVisible = True, onChange = []\<rparr>" NextMonth 2023]
    month_in_range [of "\<lparr>date = 0,
       monthYear = \<lparr>MonthYear.month = 11, MonthYear.year = 2023\<rparr>,
       view = MonthView, isVisible = True, onChange = []\<rparr>" "SelectMonth 4" 2023]
  by simp


section \<open>Selecting a year, a month and a day\<close>

lemma run_select:
  "monthYear (run s [SelectYear y])
     = \<lparr>MonthYear.month = MonthYear.month (monthYear s), MonthYear.year = y\<rparr>"
  "view (run s [SelectYear y]) = MonthView"
  "monthYear (run s [SelectYear y, SelectMonth m]) = \<lparr>MonthYear.month = m, MonthYear.year = y\<rparr>"
  "view (run s [SelectYear y, SelectMonth m]) = DateView"
  "onChange (run s [SelectYear y, SelectMonth m, SelectDate d]) = onChange s @ [newDate y m d]"
  "\<not> isVisible (run s [SelectYear y, SelectMonth m, SelectDate d])"
  "view (run s [SelectYear y, SelectMonth m, SelectDate d]) = DateView"
  by (simp_all add: run_def step_def effect_def)

text \<open>
  For a year from 100 to 270000 or from -270000 to -1, a month from 0 to 11 and a
  day of that month, the three selections report the date with that year, month
  and day.
\<close>

lemma select_date_reports:
  assumes "y < 0 \<or> 99 < y" and "- 270000 \<le> y" and "y \<le> 270000"
    and "0 \<le> m" and "m \<le> 11" and "1 \<le> d" and "d \<le> daysInMonth m y"
  shows "\<exists>t. onChange (run s [SelectYear y, SelectMonth m, SelectDate d]) = onChange s @ [Some t]
             \<and> getFullYear t = y \<and> getMonth t = m \<and> getDate t = d"
  using newDate_value [OF assms] MakeDate_getters [OF assms(4-7)] by (simp add: run_select)

text \<open>
  Claim C7, at an input where the code departs from it. From the initial state with
  the date 2023-03-10: open the popup, switch to Year view, then \<open>selectYear(50)\<close>,
  \<open>selectMonth(0)\<close>, \<open>selectDate(5)\<close>. The month and year shown are 0 and 50, the
  view has gone to Month and then to Date, the popup is hidden, and \<open>onChange\<close> has
  been called once, with a date whose year is 1950: \<open>selectDate\<close> builds the date
  with \<open>new Date(year, month, d)\<close>, which reads a year from 0 to 99 as 1900 + year.
  \<open>isValid\<close> sets the same year with \<open>setFullYear\<close>, which reads it as the year 50:
  with \<open>maxDate\<close> 1000-01-01 it accepts the day 5 of month 0 of year 50, and the
  date reported for it lies after \<open>maxDate\<close>.
\<close>

theorem select_date_two_digit_year:
  "monthYear (run (init (MakeDate (MakeDay 2023 2 10) 0))
       [ShowCalendar, ViewYears, SelectYear 50, SelectMonth 0, SelectDate 5])
     = \<lparr>MonthYear.month = 0, MonthYear.year = 50\<rparr>
   \<and> view (run (init (MakeDate (MakeDay 2023 2 10) 0))
       [ShowCalendar, ViewYears, SelectYear 50, SelectMonth 0, SelectDate 5]) = DateView
   \<and> isVisible (run (init (MakeDate (MakeDay 2023 2 10) 0))
       [ShowCalendar, ViewYears, SelectYear 50, SelectMonth 0, SelectDate 5]) = False
   \<and> onChange (run (init (MakeDate (MakeDay 2023 2 10) 0))
       [ShowCalendar, ViewYears, SelectYear 50, SelectMonth 0, SelectDate 5])
     = [Some (MakeDate (MakeDay 1950 0 5) 0)]
   \<and> getFullYear (MakeDate (MakeDay 1950 0 5) 0) = 1950
   \<and> getMonth (MakeDate (MakeDay 1950 0 5) 0) = 0
   \<and> getDate (MakeDate (MakeDay 1950 0 5) 0) = 5
   \<and> fst (isValid DateView None (Some (MakeDate (MakeDay 1000 0 1) 0))
          (MakeDate (MakeDay 2023 5 15) 43200000)
          \<lparr>day = Some 5, month = Some 0, year = 50\<rparr>) = True
   \<and> MakeDate (MakeDay 1000 0 1) 0 < MakeDate (MakeDay 1950 0 5) 0"
  by code_simp


section \<open>Closing and opening the popup\<close>

lemma open_resets_anchor:
  assumes "\<not> isVisible s" and "e = ShowCalendar \<or> e = ToggleCalendar"
  shows "isVisible (step s e)
         \<and> monthYear (step s e)
             = \<lparr>MonthYear.month = getMonth (date s), MonthYear.year = getFullYear (date s)\<rparr>
         \<and> view (step s e) = view s"
  using assms by (auto simp: step_def effect_def)

lemma close_by_mouse_resets_view:
  assumes "isVisible s"
  shows "\<not> isVisible (step s (MouseDown True)) \<and> view (step s (MouseDown True)) = DateView"
  using assms by (simp add: step_def effect_def)

lemma close_by_toggle_or_select_keeps_view:
  assumes "isVisible s" and "e = ToggleCalendar \<or> e = SelectDate d"
  shows "\<not> isVisible (step s e) \<and> view (step s e) = view s"
  using assms by (auto simp: step_def effect_def)

text \<open>
  Claim C5, at an input where the code departs from it. From the initial state:
  open the popup, switch to Month view, toggle the popup. The popup is hidden and
  the view is still Month; \<open>toggleCalendar\<close> sets the visibility only. The
  \<open>mousedown\<close> listener, closing the same popup, sets the view to Date.
\<close>

theorem toggle_close_keeps_view:
  "\<not> isVisible (run (init dt) [ShowCalendar, ViewMonths, ToggleCalendar])
   \<and> view (run (init dt) [ShowCalendar, ViewMonths, ToggleCalendar]) = MonthView
   \<and> \<not> isVisible (run (init dt) [ShowCalendar, ViewMonths, MouseDown True])
   \<and> view (run (init dt) [ShowCalendar, ViewMonths, MouseDown True]) = DateView"
  by (simp add: run_def step_def effect_def init_def)

text \<open>
  Claim C8, at an input where the code departs from it. From the initial state:
  open the popup, go to the next month, switch to Month view, toggle the popup
  closed, open it again. The month and year shown are those of \<open>date\<close> again, and
  the view is Month, not Date.
\<close>

theorem reopen_keeps_view:
  "isVisible (run (init dt) [ShowCalendar, NextMonth, ViewMonths, ToggleCalendar, ShowCalendar])
   \<and> view (run (init dt) [ShowCalendar, NextMonth, ViewMonths, ToggleCalendar, ShowCalendar])
       = MonthView
   \<and> monthYear (run (init dt) [ShowCalendar, NextMonth, ViewMonths, ToggleCalendar, ShowCalendar])
       = \<lparr>MonthYear.month = getMonth dt, MonthYear.year = getFullYear dt\<rparr>"
  by (simp add: run_def step_def effect_def init_def)

end
